theory Spec2Isabelle
  imports Complex_Main "HOL-Library.Multiset"
begin

section \<open>Customer analytics and report: the data-shaping functions\<close>

text \<open>
  The two route modules are embedded function by function. Conventions:
  \<^item> a JavaScript \<open>number\<close> is a \<^typ>\<open>real\<close>: only finite values are modelled (no \<open>NaN\<close>,
    no \<open>Infinity\<close>); where the source could produce a non-finite value by dividing, the
    division is the partial \<open>js_divide\<close>;
  \<^item> a \<open>string\<close> is a \<^typ>\<open>string\<close>; \<open>T | null\<close> and optional members are \<^typ>\<open>'a option\<close>;
  \<^item> a \<open>Date\<close> is its time value, an \<^typ>\<open>int\<close> of milliseconds since the epoch;
  \<^item> \<open>throw\<close> is the left summand of a sum type;
  \<^item> the host functions the source calls but does not define (\<open>toLowerCase\<close>, the \<open>Date\<close>
    string parser, \<open>localeCompare\<close>, the GraphQL client) are parameters of the functions that
    use them;
  \<^item> a \<open>while\<close> loop over the pages of the upstream takes fuel, one unit for each request,
    and returns \<open>None\<close> when the fuel is spent before the loop ends.
\<close>

subsection \<open>Host operations\<close>

datatype error = TypeError | GraphQLError "string list"

text \<open>Truthiness of a string: the empty string is falsy.\<close>

definition truthy :: "string \<Rightarrow> bool" where
  "truthy s = (s \<noteq> [])"

text \<open>\<open>a || b\<close> on an optional string and a default.\<close>

definition or_else :: "string option \<Rightarrow> string \<Rightarrow> string" where
  "or_else v d = (case v of None \<Rightarrow> d | Some s \<Rightarrow> if truthy s then s else d)"

text \<open>\<open>a || null\<close> on an optional string: the empty string becomes \<open>null\<close>.\<close>

definition or_null :: "string option \<Rightarrow> string option" where
  "or_null v = (case v of None \<Rightarrow> None | Some s \<Rightarrow> if truthy s then Some s else None)"

text \<open>
  \<open>a / b\<close>: \<open>None\<close> stands for the non-finite result (\<open>NaN\<close> or an infinity) of a zero
  divisor.
\<close>

definition js_divide :: "real \<Rightarrow> real \<Rightarrow> real option" where
  "js_divide a b = (if b = 0 then None else Some (a / b))"

text \<open>
  \<open>Array.prototype.sort\<close> with a comparator: a stable sort, here by insertion. An element
  goes before the first element it does not compare greater than, so equal elements keep
  their order. For a comparator that is total and transitive, as those of the source are
  on finite numbers, every stable sort returns this list.
\<close>

fun sort_insert :: "('a \<Rightarrow> 'a \<Rightarrow> real) \<Rightarrow> 'a \<Rightarrow> 'a list \<Rightarrow> 'a list" where
  "sort_insert cmp x [] = [x]"
| "sort_insert cmp x (y # ys) =
     (if cmp x y \<le> 0 then x # y # ys else y # sort_insert cmp x ys)"

fun array_sort :: "('a \<Rightarrow> 'a \<Rightarrow> real) \<Rightarrow> 'a list \<Rightarrow> 'a list" where
  "array_sort cmp [] = []"
| "array_sort cmp (x # xs) = sort_insert cmp x (array_sort cmp xs)"

text \<open>\<open>a || b\<close> on numbers: the second operand when the first is zero.\<close>

definition num_or :: "real \<Rightarrow> real \<Rightarrow> real" where
  "num_or a b = (if a = 0 then b else a)"

text \<open>\<open>Array.prototype.findIndex\<close>: the first index whose element passes, or \<open>-1\<close>.\<close>

fun findIndex_from :: "('a \<Rightarrow> nat \<Rightarrow> bool) \<Rightarrow> 'a list \<Rightarrow> nat \<Rightarrow> int" where
  "findIndex_from p [] i = - 1"
| "findIndex_from p (x # xs) i = (if p x i then int i else findIndex_from p xs (Suc i))"

definition findIndex :: "('a \<Rightarrow> nat \<Rightarrow> bool) \<Rightarrow> 'a list \<Rightarrow> int" where
  "findIndex p xs = findIndex_from p xs 0"

text \<open>\<open>String.prototype.includes\<close>: the argument occurs as a contiguous part.\<close>

fun string_includes :: "string \<Rightarrow> string \<Rightarrow> bool" where
  "string_includes [] q = (q = [])"
| "string_includes (c # cs) q = (take (length q) (c # cs) = q \<or> string_includes cs q)"

subsection \<open>View rows\<close>

text \<open>
  The element type of \<open>LoaderData["topCustomers"]\<close>; the rows of the new-customer list and
  of the report extend it.
\<close>

record CustomerRow =
  row_id :: string
  name :: string
  email :: string
  totalSpent :: real
  ordersCount :: real

record NewCustomer = CustomerRow +
  firstOrderDate :: string

record ReportCustomer = CustomerRow +
  createdAt :: "string option"
  report_firstOrderDate :: "string option"
  tags :: "string list"

subsection \<open>Top customers (analytics route)\<close>

definition insertTopCustomer ::
  "CustomerRow list \<Rightarrow> CustomerRow \<Rightarrow> CustomerRow list" where
  "insertTopCustomer list customer =
     (let next = array_sort (\<lambda>a b. totalSpent b - totalSpent a) (list @ [customer])
      in take 10 next)"

subsection \<open>Sorting the report\<close>

datatype SortKey = ltv_desc | ltv_asc | orders_desc | orders_asc

fun sortCustomers :: "ReportCustomer list \<Rightarrow> SortKey \<Rightarrow> ReportCustomer list" where
  "sortCustomers customers ltv_asc =
     array_sort (\<lambda>a b. num_or (totalSpent a - totalSpent b) (ordersCount a - ordersCount b))
       customers"
| "sortCustomers customers ltv_desc =
     array_sort (\<lambda>a b. num_or (totalSpent b - totalSpent a) (ordersCount b - ordersCount a))
       customers"
| "sortCustomers customers orders_asc =
     array_sort (\<lambda>a b. num_or (ordersCount a - ordersCount b) (totalSpent a - totalSpent b))
       customers"
| "sortCustomers customers orders_desc =
     array_sort (\<lambda>a b. num_or (ordersCount b - ordersCount a) (totalSpent b - totalSpent a))
       customers"

text \<open>
  The order each key asks for: the primary metric in the requested direction, ties on it
  broken by the other metric in the same direction.
\<close>

fun in_order :: "SortKey \<Rightarrow> ReportCustomer \<Rightarrow> ReportCustomer \<Rightarrow> bool" where
  "in_order ltv_asc a b =
     (totalSpent a < totalSpent b \<or> totalSpent a = totalSpent b \<and> ordersCount a \<le> ordersCount b)"
| "in_order ltv_desc a b =
     (totalSpent a > totalSpent b \<or> totalSpent a = totalSpent b \<and> ordersCount a \<ge> ordersCount b)"
| "in_order orders_asc a b =
     (ordersCount a < ordersCount b \<or> ordersCount a = ordersCount b \<and> totalSpent a \<le> totalSpent b)"
| "in_order orders_desc a b =
     (ordersCount a > ordersCount b \<or> ordersCount a = ordersCount b \<and> totalSpent a \<ge> totalSpent b)"

definition rc :: "real \<Rightarrow> real \<Rightarrow> ReportCustomer" where
  "rc spent orders =
     \<lparr>row_id = [], name = [], email = [], totalSpent = spent, ordersCount = orders,
      createdAt = None, report_firstOrderDate = None, tags = []\<rparr>"

subsection \<open>Histogram buckets\<close>

text \<open>
  A label is a template literal over numbers, kept here by its parts: \<open>OpenEnded e\<close> is
  \<open>`${e}+`\<close> and \<open>Range e n\<close> is \<open>`${e}-${n}`\<close>.
\<close>

datatype BucketLabel = OpenEnded real | Range real real

record Bucket =
  label :: BucketLabel
  bucket_count :: nat

text \<open>
  The callback of \<open>edges.map\<close>: \<open>edges[index + 1]\<close> is read only when \<open>index\<close> is not the
  last index, so the read is inside the array.
\<close>

definition bucket_label :: "real list \<Rightarrow> nat \<times> real \<Rightarrow> BucketLabel" where
  "bucket_label edges = (\<lambda>(index, edge).
     if int index = int (length edges) - 1 then OpenEnded edge
     else Range edge (edges ! (index + 1) - 1))"

text \<open>
  The callback of \<open>edges.findIndex\<close>: \<open>edges[i + 1]\<close> is \<open>undefined\<close> exactly when \<open>i + 1\<close>
  is past the end.
\<close>

definition in_bucket :: "real list \<Rightarrow> real \<Rightarrow> real \<Rightarrow> nat \<Rightarrow> bool" where
  "in_bucket edges v edge i =
     (if length edges \<le> i + 1 then v \<ge> edge
      else v \<ge> edge \<and> v < edges ! (i + 1))"

text \<open>
  The counting loop. \<open>buckets[bucketIndex].count += 1\<close> reads a member of
  \<open>buckets[bucketIndex]\<close>, which throws a \<open>TypeError\<close> when that element is \<open>undefined\<close>,
  that is when the index is outside the array.
\<close>

fun count_values :: "real list \<Rightarrow> real list \<Rightarrow> Bucket list \<Rightarrow> error + Bucket list" where
  "count_values edges [] buckets = Inr buckets"
| "count_values edges (v # vs) buckets =
     (let index = findIndex (in_bucket edges v) edges;
          bucketIndex = (if index = - 1 then int (length buckets) - 1 else index)
      in if 0 \<le> bucketIndex \<and> bucketIndex < int (length buckets)
         then count_values edges vs
                (buckets[nat bucketIndex :=
                   (buckets ! nat bucketIndex)
                     \<lparr>bucket_count := bucket_count (buckets ! nat bucketIndex) + 1\<rparr>])
         else Inl TypeError)"

definition buildBuckets :: "real list \<Rightarrow> real list \<Rightarrow> error + Bucket list" where
  "buildBuckets values edges =
     (let buckets = map (\<lambda>ie. \<lparr>label = bucket_label edges ie, bucket_count = 0\<rparr>)
                      (enumerate 0 edges)
      in count_values edges values buckets)"

subsection \<open>CSV fields\<close>

abbreviation dquote :: char where
  "dquote \<equiv> CHR 0x22"

abbreviation newline :: char where
  "newline \<equiv> CHR 0x0A"

text \<open>The test \<open>/[",\n]/\<close> and the replacement of every quote by two.\<close>

definition needs_quoting :: "string \<Rightarrow> bool" where
  "needs_quoting text = list_ex (\<lambda>c. c = dquote \<or> c = CHR '','' \<or> c = newline) text"

definition double_quotes :: "string \<Rightarrow> string" where
  "double_quotes text = concat (map (\<lambda>c. if c = dquote then [dquote, dquote] else [c]) text)"

text \<open>
  \<open>escapeCsv\<close> takes a string, a number or \<open>null\<close> and first converts a value that is not
  \<open>null\<close> with \<open>String\<close>. The argument here is \<open>None\<close> for \<open>null\<close> and \<open>undefined\<close>, and
  otherwise the text \<open>String(value)\<close>, which for a string is the string itself.
\<close>

definition escapeCsv :: "string option \<Rightarrow> string" where
  "escapeCsv v =
     (case v of
        None \<Rightarrow> []
      | Some text \<Rightarrow>
          if needs_quoting text then [dquote] @ double_quotes text @ [dquote]
          else text)"

text \<open>
  The reader of one CSV field, written from the specification's words (``re-parsing it
  yields the original string''), not from the source, which has no reader: a field that
  opens with a quote runs to its closing quote, a doubled quote inside standing for one
  quote; any other field is taken as it is, and must hold no quote, comma or newline.
  \<open>None\<close> is a malformed field.
\<close>

fun spec_unquote :: "string \<Rightarrow> string option" where
  "spec_unquote [] = None"
| "spec_unquote (c # cs) =
     (if c \<noteq> dquote then map_option ((#) c) (spec_unquote cs)
      else (case cs of
              [] \<Rightarrow> Some []
            | d # ds \<Rightarrow> if d = dquote then map_option ((#) dquote) (spec_unquote ds) else None))"

definition spec_parseCsvField :: "string \<Rightarrow> string option" where
  "spec_parseCsvField field =
     (case field of
        [] \<Rightarrow> Some []
      | c # cs \<Rightarrow>
          if c = dquote then spec_unquote cs
          else if needs_quoting field then None
          else Some field)"

text \<open>The name \<open>O'Brien, Jr. "VIP"\<close>.\<close>

definition obrien :: string where
  "obrien = ''O'' @ [CHR 0x27] @ ''Brien, Jr. '' @ [dquote] @ ''VIP'' @ [dquote]"

subsection \<open>The tag filter and the other filters of the report\<close>

datatype TagsMode = mode_any | mode_all

text \<open>
  The parsed query parameters the filter callback of \<open>loader\<close> closes over. The four dates
  are the results of \<open>parseDate\<close>: \<open>None\<close> for \<open>null\<close>, otherwise a valid time value.
\<close>

record ReportFilter =
  query :: string
  minOrdersValue :: "real option"
  maxOrdersValue :: "real option"
  minSpentValue :: "real option"
  maxSpentValue :: "real option"
  tagsList :: "string list"
  tagsMode :: TagsMode
  createdStartDate :: "int option"
  createdEndDate :: "int option"
  firstOrderStartDate :: "int option"
  firstOrderEndDate :: "int option"

text \<open>
  \<open>bound !== null && value < bound\<close>, and the two comparisons of a date with an optional
  bound. \<open>new Date(text)\<close> is the parameter \<open>newDate\<close>, \<open>None\<close> for an invalid date, which
  compares false with everything.
\<close>

definition below :: "real \<Rightarrow> real option \<Rightarrow> bool" where
  "below v bound = (case bound of None \<Rightarrow> False | Some b \<Rightarrow> v < b)"

definition above :: "real \<Rightarrow> real option \<Rightarrow> bool" where
  "above v bound = (case bound of None \<Rightarrow> False | Some b \<Rightarrow> v > b)"

definition before :: "int option \<Rightarrow> int option \<Rightarrow> bool" where
  "before d bound =
     (case bound of None \<Rightarrow> False | Some b \<Rightarrow> (case d of None \<Rightarrow> False | Some t \<Rightarrow> t < b))"

definition after_bound :: "int option \<Rightarrow> int option \<Rightarrow> bool" where
  "after_bound d bound =
     (case bound of None \<Rightarrow> False | Some b \<Rightarrow> (case d of None \<Rightarrow> False | Some t \<Rightarrow> t > b))"

text \<open>The date part of the callback, the same for \<open>createdAt\<close> and \<open>firstOrderDate\<close>.\<close>

definition date_excluded ::
  "(string \<Rightarrow> int option) \<Rightarrow> string option \<Rightarrow> int option \<Rightarrow> int option \<Rightarrow> bool" where
  "date_excluded newDate field startDate endDate =
     (if startDate \<noteq> None \<or> endDate \<noteq> None then
        (case field of
           None \<Rightarrow> True
         | Some text \<Rightarrow>
             if \<not> truthy text then True
             else before (newDate text) startDate \<or> after_bound (newDate text) endDate)
      else False)"

definition tags_match :: "TagsMode \<Rightarrow> string list \<Rightarrow> ReportCustomer \<Rightarrow> bool" where
  "tags_match mode requested customer =
     (let hasTag = (\<lambda>tag. tag \<in> set (tags customer))
      in if mode = mode_all then list_all hasTag requested else list_ex hasTag requested)"

text \<open>The callback of \<open>customers.filter\<close>, one test after the other as in the source.\<close>

definition passes_filter ::
  "(string \<Rightarrow> string) \<Rightarrow> (string \<Rightarrow> int option) \<Rightarrow> ReportFilter \<Rightarrow> ReportCustomer \<Rightarrow> bool" where
  "passes_filter toLowerCase newDate f customer =
     (if truthy (query f)
         \<and> \<not> string_includes (toLowerCase (name customer)) (query f)
         \<and> \<not> string_includes (toLowerCase (email customer)) (query f) then False
      else if below (ordersCount customer) (minOrdersValue f) then False
      else if above (ordersCount customer) (maxOrdersValue f) then False
      else if below (totalSpent customer) (minSpentValue f) then False
      else if above (totalSpent customer) (maxSpentValue f) then False
      else if tagsList f \<noteq> [] \<and> \<not> tags_match (tagsMode f) (tagsList f) customer then False
      else if date_excluded newDate (createdAt customer) (createdStartDate f) (createdEndDate f)
        then False
      else if date_excluded newDate (report_firstOrderDate customer)
                (firstOrderStartDate f) (firstOrderEndDate f)
        then False
      else True)"

definition tagged :: "string \<Rightarrow> string list \<Rightarrow> ReportCustomer" where
  "tagged i ts =
     \<lparr>row_id = i, name = [], email = [], totalSpent = 0, ordersCount = 0,
      createdAt = None, report_firstOrderDate = None, tags = ts\<rparr>"

definition tags_only :: "string list \<Rightarrow> TagsMode \<Rightarrow> ReportFilter" where
  "tags_only ts mode =
     \<lparr>query = [], minOrdersValue = None, maxOrdersValue = None, minSpentValue = None,
      maxSpentValue = None, tagsList = ts, tagsMode = mode, createdStartDate = None,
      createdEndDate = None, firstOrderStartDate = None, firstOrderEndDate = None\<rparr>"

subsection \<open>The date range of the analytics route\<close>

definition DEFAULT_RANGE_DAYS :: int where
  "DEFAULT_RANGE_DAYS = 30"

definition msPerDay :: int where
  "msPerDay = 86400000"

text \<open>
  \<open>Date.UTC(d.getUTCFullYear(), d.getUTCMonth(), d.getUTCDate(), h, m, s)\<close>: the start of
  the UTC day of \<open>d\<close> plus the time of day. (For a year from 0 to 99 \<open>Date.UTC\<close> reads the
  year as 1900 more; the model is of the instants from the year 100 on.)
\<close>

definition utc_day_at :: "int \<Rightarrow> int \<Rightarrow> int \<Rightarrow> int \<Rightarrow> int" where
  "utc_day_at d h m s = (d div msPerDay) * msPerDay + ((h * 60 + m) * 60 + s) * 1000"

text \<open>
  \<open>newDate\<close> is \<open>new Date(text)\<close>: \<open>None\<close> when the time value is \<open>NaN\<close>.
\<close>

definition parseDateParam :: "(string \<Rightarrow> int option) \<Rightarrow> string option \<Rightarrow> int \<Rightarrow> int" where
  "parseDateParam newDate v fallback =
     (case v of
        None \<Rightarrow> fallback
      | Some text \<Rightarrow>
          if \<not> truthy text then fallback
          else (case newDate (text @ ''T00:00:00Z'') of None \<Rightarrow> fallback | Some parsed \<Rightarrow> parsed))"

record DateRange =
  range_start :: int
  range_end :: int

text \<open>
  \<open>today\<close> is the time value of \<open>new Date()\<close>, \<open>startParam\<close> and \<open>endParam\<close> are
  \<open>url.searchParams.get("start")\<close> and \<open>get("end")\<close>. \<open>setUTCDate\<close> with the day of the month
  less 29 moves the date back 29 whole days.
\<close>

definition getDateRange ::
  "int \<Rightarrow> (string \<Rightarrow> int option) \<Rightarrow> string option \<Rightarrow> string option \<Rightarrow> DateRange" where
  "getDateRange today newDate startParam endParam =
     (let endDefault = utc_day_at today 0 0 0;
          startDefault = endDefault - (DEFAULT_RANGE_DAYS - 1) * msPerDay;
          startDate = parseDateParam newDate startParam startDefault;
          endDate = parseDateParam newDate endParam endDefault;
          normalizedStart = utc_day_at startDate 0 0 0;
          normalizedEnd = utc_day_at endDate 23 59 59
      in if normalizedStart > normalizedEnd
         then \<lparr>range_start = startDefault, range_end = endDefault\<rparr>
         else \<lparr>range_start = normalizedStart, range_end = normalizedEnd\<rparr>)"

text \<open>
  A date parser for the examples: it knows the two days 2024-02-01 and 2024-02-10.
  The instant \<open>1710506096000\<close> is 2024-03-15T12:34:56Z.
\<close>

definition two_days :: "string \<Rightarrow> int option" where
  "two_days text =
     (if text = ''2024-02-01T00:00:00Z'' then Some 1706745600000
      else if text = ''2024-02-10T00:00:00Z'' then Some 1707523200000
      else None)"

subsection \<open>GraphQL responses\<close>

text \<open>
  \<open>amount\<close> is the number that \<open>Number\<close> gives for the decimal string of the response, \<open>0\<close>
  for the empty string, which \<open>amount || 0\<close> replaces by \<open>0\<close>.
\<close>

record Money =
  amount :: real
  currencyCode :: string

record OrderStub =
  stub_createdAt :: "string option"

record OrderConnection =
  order_nodes :: "OrderStub list option"

record CustomerNode =
  node_id :: string
  displayName :: "string option"
  node_email :: "string option"
  node_createdAt :: "string option"
  numberOfOrders :: "real option"
  node_tags :: "string list option"
  amountSpent :: "Money option"
  orders :: "OrderConnection option"

record OrderNode =
  order_createdAt :: string
  order_customer :: "CustomerNode option"

text \<open>
  The parsed body of one response, \<open>json\<close>: \<open>errors\<close> is \<open>None\<close> when the member is absent or
  \<open>null\<close> and \<open>Some es\<close> when it is an array, each error kept as a string; \<open>nodes\<close> and
  \<open>pageInfo\<close> are those of \<open>json.data.customers\<close> or \<open>json.data.orders\<close>, typed as the
  source casts them. An array is truthy, also the empty one, so \<open>if (json.errors)\<close> is the
  test \<open>errors json \<noteq> None\<close>.
\<close>

record PageInfo =
  page_hasNextPage :: bool
  endCursor :: "string option"

record 'n Response =
  errors :: "string list option"
  nodes :: "'n list"
  pageInfo :: PageInfo

text \<open>
  \<open>admin.graphql\<close> with the query of the loop, followed by \<open>response.json()\<close>, as a
  function of the cursor variable \<open>after\<close>.
\<close>

type_synonym 'n Admin = "string option \<Rightarrow> 'n Response"

text \<open>
  The values every loop derives from a customer node. The local variables of the source
  that share a name with a record field carry the suffix \<open>_v\<close> below.
\<close>

definition node_amount :: "CustomerNode \<Rightarrow> real" where
  "node_amount customer = (case amountSpent customer of None \<Rightarrow> 0 | Some m \<Rightarrow> amount m)"

definition node_ordersCount :: "CustomerNode \<Rightarrow> real" where
  "node_ordersCount customer = (case numberOfOrders customer of None \<Rightarrow> 0 | Some n \<Rightarrow> n)"

definition node_name :: "CustomerNode \<Rightarrow> string" where
  "node_name customer = or_else (displayName customer) (or_else (node_email customer) ''Unknown'')"

definition node_currency :: "CustomerNode \<Rightarrow> string option" where
  "node_currency customer =
     (case amountSpent customer of None \<Rightarrow> None | Some m \<Rightarrow> or_null (Some (currencyCode m)))"

text \<open>\<open>customer.orders?.nodes?.[0]?.createdAt || null\<close>.\<close>

definition first_order_createdAt :: "CustomerNode \<Rightarrow> string option" where
  "first_order_createdAt customer =
     (case orders customer of
        None \<Rightarrow> None
      | Some conn \<Rightarrow>
          (case order_nodes conn of
             None \<Rightarrow> None
           | Some [] \<Rightarrow> None
           | Some (stub # _) \<Rightarrow> or_null (stub_createdAt stub)))"

subsection \<open>The customer walk of the analytics route\<close>

definition MAX_CUSTOMERS :: nat where
  "MAX_CUSTOMERS = 2000"

definition MAX_ORDERS :: nat where
  "MAX_ORDERS = 2000"

text \<open>
  The accumulators of the loop. The two other variables of the loop, \<open>hasNextPage\<close> and
  \<open>after\<close>, are arguments of the loop function.
\<close>

record CustomerTotals =
  customersCount :: nat
  totalClv :: real
  topCustomers :: "CustomerRow list"
  totals_currencyCode :: string
  truncated :: bool

record CustomerSummary = CustomerTotals +
  averageClv :: "real option"

text \<open>The body of \<open>for (const customer of customers)\<close>.\<close>

definition count_customer :: "CustomerTotals \<Rightarrow> CustomerNode \<Rightarrow> CustomerTotals" where
  "count_customer st customer =
     (let amount_v = node_amount customer;
          ordersCount_v = node_ordersCount customer;
          name_v = node_name customer;
          email_v = or_else (node_email customer) ''-'';
          currencyCode_v = (case node_currency customer of
                              None \<Rightarrow> totals_currencyCode st | Some code \<Rightarrow> code)
      in \<lparr>customersCount = customersCount st + 1,
          totalClv = totalClv st + amount_v,
          topCustomers = insertTopCustomer (topCustomers st)
            \<lparr>row_id = node_id customer, name = name_v, email = email_v,
             totalSpent = amount_v, ordersCount = ordersCount_v\<rparr>,
          totals_currencyCode = currencyCode_v,
          truncated = truncated st\<rparr>)"

text \<open>
  The \<open>while\<close> loop, with fuel: one unit for each request. \<open>None\<close> is a walk that has not
  ended when the fuel is spent; an upstream that always reports a next page and sends
  empty pages keeps the loop of the source running for ever.
\<close>

fun fetchCustomersLoop ::
  "nat \<Rightarrow> CustomerNode Admin \<Rightarrow> bool \<Rightarrow> string option \<Rightarrow> CustomerTotals
   \<Rightarrow> (error + CustomerTotals) option" where
  "fetchCustomersLoop 0 admin hasNextPage after st =
     (if hasNextPage \<and> customersCount st < MAX_CUSTOMERS then None else Some (Inr st))"
| "fetchCustomersLoop (Suc fuel) admin hasNextPage after st =
     (if hasNextPage \<and> customersCount st < MAX_CUSTOMERS then
        (let json = admin after
         in case errors json of
              Some es \<Rightarrow> Some (Inl (GraphQLError es))
            | None \<Rightarrow>
                (let st' = foldl count_customer st (nodes json);
                     hasNextPage' = page_hasNextPage (pageInfo json);
                     after' = endCursor (pageInfo json);
                     st'' = (if customersCount st' \<ge> MAX_CUSTOMERS \<and> hasNextPage'
                             then st'\<lparr>truncated := True\<rparr> else st')
                 in fetchCustomersLoop fuel admin hasNextPage' after' st''))
      else Some (Inr st))"

definition fetchAllCustomers ::
  "nat \<Rightarrow> CustomerNode Admin \<Rightarrow> (error + CustomerSummary) option" where
  "fetchAllCustomers fuel admin =
     (case fetchCustomersLoop fuel admin True None
             \<lparr>customersCount = 0, totalClv = 0, topCustomers = [],
              totals_currencyCode = ''USD'', truncated = False\<rparr> of
        None \<Rightarrow> None
      | Some (Inl e) \<Rightarrow> Some (Inl e)
      | Some (Inr st) \<Rightarrow>
          Some (Inr
            \<lparr>customersCount = customersCount st,
             totalClv = totalClv st,
             topCustomers = topCustomers st,
             totals_currencyCode = totals_currencyCode st,
             truncated = truncated st,
             averageClv = (if customersCount st \<noteq> 0
                           then js_divide (totalClv st) (real (customersCount st))
                           else Some 0)\<rparr>))"

subsection \<open>The customer walk of the report route\<close>

record ReportFetch =
  customers :: "ReportCustomer list"
  report_currencyCode :: string

definition push_customer ::
  "(string \<Rightarrow> string) \<Rightarrow> ReportFetch \<Rightarrow> CustomerNode \<Rightarrow> ReportFetch" where
  "push_customer toLowerCase st customer =
     (let amount_v = node_amount customer;
          ordersCount_v = node_ordersCount customer;
          name_v = node_name customer;
          email_v = or_else (node_email customer) ''-'';
          createdAt_v = or_null (node_createdAt customer);
          firstOrderDate_v = first_order_createdAt customer;
          tags_v = map toLowerCase (case node_tags customer of None \<Rightarrow> [] | Some ts \<Rightarrow> ts);
          currencyCode_v = (case node_currency customer of
                              None \<Rightarrow> report_currencyCode st | Some code \<Rightarrow> code)
      in \<lparr>customers = customers st @
            [\<lparr>row_id = node_id customer, name = name_v, email = email_v,
              totalSpent = amount_v, ordersCount = ordersCount_v, createdAt = createdAt_v,
              report_firstOrderDate = firstOrderDate_v, tags = tags_v\<rparr>],
          report_currencyCode = currencyCode_v\<rparr>)"

fun fetchReportLoop ::
  "nat \<Rightarrow> CustomerNode Admin \<Rightarrow> (string \<Rightarrow> string) \<Rightarrow> bool \<Rightarrow> string option \<Rightarrow> ReportFetch
   \<Rightarrow> (error + ReportFetch) option" where
  "fetchReportLoop 0 admin toLowerCase hasNextPage after st =
     (if hasNextPage then None else Some (Inr st))"
| "fetchReportLoop (Suc fuel) admin toLowerCase hasNextPage after st =
     (if hasNextPage then
        (let json = admin after
         in case errors json of
              Some es \<Rightarrow> Some (Inl (GraphQLError es))
            | None \<Rightarrow>
                (let st' = foldl (push_customer toLowerCase) st (nodes json);
                     hasNextPage' = page_hasNextPage (pageInfo json);
                     after' = endCursor (pageInfo json)
                 in fetchReportLoop fuel admin toLowerCase hasNextPage' after' st'))
      else Some (Inr st))"

definition fetchAllCustomers_report ::
  "nat \<Rightarrow> CustomerNode Admin \<Rightarrow> (string \<Rightarrow> string) \<Rightarrow> (error + ReportFetch) option" where
  "fetchAllCustomers_report fuel admin toLowerCase =
     fetchReportLoop fuel admin toLowerCase True None
       \<lparr>customers = [], report_currencyCode = ''USD''\<rparr>"

subsection \<open>The order scan of the analytics route\<close>

text \<open>
  The notes the scan returns, and with them the other accumulators of its loop:
  \<open>scanned\<close> is the loop's \<open>ordersCount\<close>, and \<open>newCustomersMap\<close> is the \<open>Map\<close>, kept as the
  list of its entries in insertion order.
\<close>

record ScanNotes =
  orders_truncated :: bool
  usedFallback :: bool

record OrdersScan = ScanNotes +
  scanned :: nat
  newCustomersMap :: "(string \<times> NewCustomer) list"

record OrdersSummary = ScanNotes +
  newCustomers :: "NewCustomer list"

text \<open>\<open>firstOrder >= start && firstOrder <= end\<close>, false for an invalid date.\<close>

definition in_window :: "int option \<Rightarrow> int \<Rightarrow> int \<Rightarrow> bool" where
  "in_window d start_v end_v = (case d of None \<Rightarrow> False | Some t \<Rightarrow> t \<ge> start_v \<and> t \<le> end_v)"

text \<open>
  The body of \<open>for (const order of orders)\<close>. The triple holds what the \<open>if\<close> and
  \<open>else if\<close> leave in \<open>usedFallback\<close> (set or not), \<open>isNewCustomer\<close> and \<open>firstOrderDate\<close>.
\<close>

definition scan_order ::
  "(string \<Rightarrow> int option) \<Rightarrow> int \<Rightarrow> int \<Rightarrow> OrdersScan \<Rightarrow> OrderNode \<Rightarrow> OrdersScan" where
  "scan_order newDate start_v end_v st order =
     (let st1 = st\<lparr>scanned := scanned st + 1\<rparr>
      in case order_customer order of
           None \<Rightarrow> st1
         | Some customer \<Rightarrow>
             if \<not> truthy (node_id customer) then st1
             else
               (let amount_v = node_amount customer;
                    ordersCountCustomer = node_ordersCount customer;
                    name_v = node_name customer;
                    email_v = or_else (node_email customer) ''-'';
                    firstOrderDateRaw = first_order_createdAt customer;
                    (fallback, isNewCustomer, firstOrderDate_v) =
                      (case firstOrderDateRaw of
                         Some raw \<Rightarrow> (False, in_window (newDate raw) start_v end_v, raw)
                       | None \<Rightarrow>
                           if ordersCountCustomer = 1 then (True, True, order_createdAt order)
                           else (False, False, []));
                    st2 = (if fallback then st1\<lparr>usedFallback := True\<rparr> else st1)
                in if \<not> isNewCustomer then st2
                   else if node_id customer \<in> set (map fst (newCustomersMap st2)) then st2
                   else st2\<lparr>newCustomersMap := newCustomersMap st2 @
                          [(node_id customer,
                            \<lparr>row_id = node_id customer, name = name_v, email = email_v,
                             totalSpent = amount_v, ordersCount = ordersCountCustomer,
                             firstOrderDate =
                               (if truthy firstOrderDate_v then firstOrderDate_v
                                else order_createdAt order)\<rparr>)]\<rparr>))"

fun fetchOrdersLoop ::
  "nat \<Rightarrow> OrderNode Admin \<Rightarrow> (string \<Rightarrow> int option) \<Rightarrow> int \<Rightarrow> int \<Rightarrow> bool \<Rightarrow> string option
   \<Rightarrow> OrdersScan \<Rightarrow> (error + OrdersScan) option" where
  "fetchOrdersLoop 0 admin newDate start_v end_v hasNextPage after st =
     (if hasNextPage \<and> scanned st < MAX_ORDERS then None else Some (Inr st))"
| "fetchOrdersLoop (Suc fuel) admin newDate start_v end_v hasNextPage after st =
     (if hasNextPage \<and> scanned st < MAX_ORDERS then
        (let json = admin after
         in case errors json of
              Some es \<Rightarrow> Some (Inl (GraphQLError es))
            | None \<Rightarrow>
                (let st' = foldl (scan_order newDate start_v end_v) st (nodes json);
                     hasNextPage' = page_hasNextPage (pageInfo json);
                     after' = endCursor (pageInfo json);
                     st'' = (if scanned st' \<ge> MAX_ORDERS \<and> hasNextPage'
                             then st'\<lparr>orders_truncated := True\<rparr> else st')
                 in fetchOrdersLoop fuel admin newDate start_v end_v hasNextPage' after' st''))
      else Some (Inr st))"

text \<open>
  \<open>admin\<close> answers the query built from \<open>start\<close> and \<open>end\<close>; \<open>localeCompare\<close> is the string
  comparison of the host.
\<close>

definition fetchOrdersInRange ::
  "nat \<Rightarrow> OrderNode Admin \<Rightarrow> (string \<Rightarrow> int option) \<Rightarrow> (string \<Rightarrow> string \<Rightarrow> real)
   \<Rightarrow> int \<Rightarrow> int \<Rightarrow> (error + OrdersSummary) option" where
  "fetchOrdersInRange fuel admin newDate localeCompare start_v end_v =
     (case fetchOrdersLoop fuel admin newDate start_v end_v True None
             \<lparr>orders_truncated = False, usedFallback = False, scanned = 0,
              newCustomersMap = []\<rparr> of
        None \<Rightarrow> None
      | Some (Inl e) \<Rightarrow> Some (Inl e)
      | Some (Inr st) \<Rightarrow>
          Some (Inr
            \<lparr>orders_truncated = orders_truncated st,
             usedFallback = usedFallback st,
             newCustomers =
               array_sort (\<lambda>a b. localeCompare (firstOrderDate a) (firstOrderDate b))
                 (map snd (newCustomersMap st))\<rparr>))"

subsection \<open>The responses a walk receives\<close>

text \<open>
  The responses a walk receives, in order, as far as the fuel goes: the walk asks again
  while the last response reported a next page, carried no errors, and the number of
  nodes received so far allows it (\<open>may_ask\<close>). This list is what the statements about a
  whole walk speak of; the loops above do not use it.
\<close>

fun responses_received ::
  "nat \<Rightarrow> 'n Admin \<Rightarrow> (nat \<Rightarrow> bool) \<Rightarrow> bool \<Rightarrow> string option \<Rightarrow> nat \<Rightarrow> 'n Response list" where
  "responses_received 0 admin may_ask hasNextPage after received = []"
| "responses_received (Suc fuel) admin may_ask hasNextPage after received =
     (if hasNextPage \<and> may_ask received then
        admin after #
          (case errors (admin after) of
             Some es \<Rightarrow> []
           | None \<Rightarrow>
               responses_received fuel admin may_ask
                 (page_hasNextPage (pageInfo (admin after))) (endCursor (pageInfo (admin after)))
                 (received + length (nodes (admin after))))
      else [])"

definition analytics_responses :: "nat \<Rightarrow> CustomerNode Admin \<Rightarrow> CustomerNode Response list" where
  "analytics_responses fuel admin =
     responses_received fuel admin (\<lambda>n. n < MAX_CUSTOMERS) True None 0"

definition report_responses :: "nat \<Rightarrow> CustomerNode Admin \<Rightarrow> CustomerNode Response list" where
  "report_responses fuel admin = responses_received fuel admin (\<lambda>n. True) True None 0"

definition orders_responses :: "nat \<Rightarrow> OrderNode Admin \<Rightarrow> OrderNode Response list" where
  "orders_responses fuel admin = responses_received fuel admin (\<lambda>n. n < MAX_ORDERS) True None 0"

text \<open>
  The currency code the claim describes, written from its words: the code of the last
  customer, in the order received, that carries a non-empty code, and \<open>USD\<close> when there is
  none.
\<close>

definition spec_currencyCode :: "CustomerNode list \<Rightarrow> string" where
  "spec_currencyCode received =
     (case List.map_filter node_currency received of [] \<Rightarrow> ''USD'' | codes \<Rightarrow> last codes)"

subsection \<open>What the statements below speak of\<close>

text \<open>
  The currency code kept after one more customer, as both customer loops update it.
\<close>

definition keep_currency :: "string \<Rightarrow> CustomerNode \<Rightarrow> string" where
  "keep_currency c n = (case node_currency n of None \<Rightarrow> c | Some code \<Rightarrow> code)"

text \<open>
  The row the fallback rule files for a customer: the first order date is the creation
  time of the order at hand.
\<close>

definition fallback_entry :: "OrderNode \<Rightarrow> CustomerNode \<Rightarrow> NewCustomer" where
  "fallback_entry order c =
     \<lparr>row_id = node_id c, name = node_name c, email = or_else (node_email c) ''-'',
      totalSpent = node_amount c, ordersCount = node_ordersCount c,
      firstOrderDate = order_createdAt order\<rparr>"

text \<open>The ids of the customers of a list of orders, and the keys of the map of a scan.\<close>

definition customer_ids :: "OrderNode list \<Rightarrow> string list" where
  "customer_ids os =
     concat (map (\<lambda>ord. case order_customer ord of None \<Rightarrow> [] | Some c \<Rightarrow> [node_id c]) os)"

abbreviation keys :: "OrdersScan \<Rightarrow> string set" where
  "keys st \<equiv> fst ` set (newCustomersMap st)"

text \<open>A map as the scan keeps it: no key twice, each row filed under its own id.\<close>

definition map_ok :: "(string \<times> NewCustomer) list \<Rightarrow> bool" where
  "map_ok m = (distinct (map fst m) \<and> (\<forall>(k, v) \<in> set m. row_id v = k))"

subsection \<open>Upstreams for the examples\<close>

definition customer_node :: "string \<Rightarrow> real \<Rightarrow> string \<Rightarrow> CustomerNode" where
  "customer_node i spent code =
     \<lparr>node_id = i, displayName = None, node_email = None, node_createdAt = None,
      numberOfOrders = Some 1, node_tags = None,
      amountSpent = Some \<lparr>amount = spent, currencyCode = code\<rparr>, orders = None\<rparr>"

definition two_pages :: "CustomerNode Admin" where
  "two_pages after =
     (if after = None
      then \<lparr>errors = None,
            nodes = [customer_node ''a'' 10 ''EUR'', customer_node ''b'' 30 []],
            pageInfo = \<lparr>page_hasNextPage = True, endCursor = Some ''p2''\<rparr>\<rparr>
      else \<lparr>errors = None,
            nodes = [customer_node ''c'' 20 ''CAD'', customer_node ''d'' 0 []],
            pageInfo = \<lparr>page_hasNextPage = False, endCursor = None\<rparr>\<rparr>)"

definition failing_second_page :: "CustomerNode Admin" where
  "failing_second_page after =
     (if after = None
      then \<lparr>errors = None,
            nodes = [customer_node ''a'' 10 ''EUR''],
            pageInfo = \<lparr>page_hasNextPage = True, endCursor = Some ''p2''\<rparr>\<rparr>
      else \<lparr>errors = Some [''Throttled''],
            nodes = [],
            pageInfo = \<lparr>page_hasNextPage = False, endCursor = None\<rparr>\<rparr>)"

definition empty_errors_page :: "CustomerNode Admin" where
  "empty_errors_page after =
     \<lparr>errors = Some [],
      nodes = [customer_node ''a'' 10 ''EUR''],
      pageInfo = \<lparr>page_hasNextPage = False, endCursor = None\<rparr>\<rparr>"

definition no_customers :: "CustomerNode Admin" where
  "no_customers after =
     \<lparr>errors = None, nodes = [],
      pageInfo = \<lparr>page_hasNextPage = False, endCursor = None\<rparr>\<rparr>"

text \<open>
  A comparison of strings by their characters, in the place of \<open>localeCompare\<close> in the
  examples; on ISO timestamps the two agree.
\<close>

fun string_compare :: "string \<Rightarrow> string \<Rightarrow> real" where
  "string_compare [] [] = 0"
| "string_compare [] (b # bs) = - 1"
| "string_compare (a # as) [] = 1"
| "string_compare (a # as) (b # bs) =
     (if a = b then string_compare as bs
      else if (of_char a :: nat) < of_char b then - 1 else 1)"

definition order_of :: "string \<Rightarrow> string \<Rightarrow> real option \<Rightarrow> string option \<Rightarrow> OrderNode" where
  "order_of created i n first_v =
     \<lparr>order_createdAt = created,
      order_customer = Some
        \<lparr>node_id = i, displayName = None, node_email = None, node_createdAt = None,
         numberOfOrders = n, node_tags = None, amountSpent = None,
         orders = Some \<lparr>order_nodes = Some
           (case first_v of None \<Rightarrow> [] | Some d \<Rightarrow> [\<lparr>stub_createdAt = Some d\<rparr>])\<rparr>\<rparr>\<rparr>"

definition repeat_customer_orders :: "OrderNode Admin" where
  "repeat_customer_orders after =
     \<lparr>errors = None,
      nodes = [order_of ''2024-01-05T10:00:00Z'' ''x'' (Some 1) None,
               order_of ''2024-01-06T09:00:00Z'' ''x'' (Some 1) None],
      pageInfo = \<lparr>page_hasNextPage = False, endCursor = None\<rparr>\<rparr>"

section \<open>Properties\<close>

subsection \<open>The sort\<close>

lemma mset_sort_insert: "mset (sort_insert cmp x xs) = add_mset x (mset xs)"
  by (induction xs) auto

lemma mset_array_sort: "mset (array_sort cmp xs) = mset xs"
  by (induction xs) (auto simp: mset_sort_insert)

lemma set_sort_insert: "set (sort_insert cmp x xs) = insert x (set xs)"
  by (induction xs) auto

lemma set_array_sort: "set (array_sort cmp xs) = set xs"
  by (induction xs) (auto simp: set_sort_insert)

lemma length_array_sort: "length (array_sort cmp xs) = length xs"
  using mset_array_sort [of cmp xs] by (metis size_mset)

text \<open>
  With a comparator that is total and transitive the result is ordered: each element
  compares at most equal to every later one.
\<close>

lemma sorted_sort_insert:
  assumes total: "\<And>a b. cmp a b \<le> 0 \<or> cmp b a \<le> 0"
    and trans: "\<And>a b c. cmp a b \<le> 0 \<Longrightarrow> cmp b c \<le> 0 \<Longrightarrow> cmp a c \<le> 0"
    and "sorted_wrt (\<lambda>a b. cmp a b \<le> 0) xs"
  shows "sorted_wrt (\<lambda>a b. cmp a b \<le> 0) (sort_insert cmp x xs)"
  using assms(3)
proof (induction xs)
  case Nil
  then show ?case by simp
next
  case (Cons y ys)
  show ?case
  proof (cases "cmp x y \<le> 0")
    case True
    with Cons.prems trans show ?thesis by auto
  next
    case False
    with total have "cmp y x \<le> 0" by blast
    with False Cons show ?thesis by (auto simp: set_sort_insert)
  qed
qed

lemma sorted_array_sort:
  assumes total: "\<And>a b. cmp a b \<le> 0 \<or> cmp b a \<le> 0"
    and trans: "\<And>a b c. cmp a b \<le> 0 \<Longrightarrow> cmp b c \<le> 0 \<Longrightarrow> cmp a c \<le> 0"
  shows "sorted_wrt (\<lambda>a b. cmp a b \<le> 0) (array_sort cmp xs)"
proof (induction xs)
  case Nil
  then show ?case by simp
next
  case (Cons x xs)
  then show ?case using sorted_sort_insert [of cmp, OF total trans] by simp
qed

subsection \<open>Top customers\<close>

lemma sorted_by_spend_desc:
  "sorted_wrt (\<lambda>a b. totalSpent b - totalSpent a \<le> 0)
     (array_sort (\<lambda>a b. totalSpent b - totalSpent a) (xs :: CustomerRow list))"
  by (rule sorted_array_sort) auto

lemma insertTopCustomer_sorted:
  "sorted_wrt (\<lambda>a b. totalSpent a \<ge> totalSpent b) (insertTopCustomer list customer)"
  using sorted_by_spend_desc [of "list @ [customer]"]
  by (simp add: insertTopCustomer_def Let_def sorted_wrt_take)

lemma insertTopCustomer_length: "length (insertTopCustomer list customer) \<le> 10"
  by (simp add: insertTopCustomer_def Let_def)

text \<open>
  C6. Starting from the empty list and inserting any sequence of candidates with
  \<open>insertTopCustomer\<close>, the list is sorted by \<open>totalSpent\<close>, largest first, and holds at
  most ten rows.
\<close>

theorem top_customers_sorted_bounded:
  "sorted_wrt (\<lambda>a b. totalSpent a \<ge> totalSpent b) (foldl insertTopCustomer [] candidates)
   \<and> length (foldl insertTopCustomer [] candidates) \<le> 10"
proof (induction candidates rule: rev_induct)
  case Nil
  then show ?case by simp
next
  case (snoc c cs)
  then show ?case by (simp add: insertTopCustomer_sorted insertTopCustomer_length)
qed

subsection \<open>Sorting the report\<close>

lemma sortCustomers_in_order: "sorted_wrt (in_order k) (sortCustomers cs k)"
proof (cases k)
  case ltv_desc
  have "sorted_wrt (\<lambda>a b. num_or (totalSpent b - totalSpent a) (ordersCount b - ordersCount a) \<le> 0)
     (array_sort (\<lambda>a b. num_or (totalSpent b - totalSpent a) (ordersCount b - ordersCount a)) cs)"
    by (rule sorted_array_sort) (auto simp: num_or_def split: if_splits)
  then show ?thesis using ltv_desc
    by (auto simp: num_or_def elim!: sorted_wrt_mono_rel [rotated] split: if_splits)
next
  case ltv_asc
  have "sorted_wrt (\<lambda>a b. num_or (totalSpent a - totalSpent b) (ordersCount a - ordersCount b) \<le> 0)
     (array_sort (\<lambda>a b. num_or (totalSpent a - totalSpent b) (ordersCount a - ordersCount b)) cs)"
    by (rule sorted_array_sort) (auto simp: num_or_def split: if_splits)
  then show ?thesis using ltv_asc
    by (auto simp: num_or_def elim!: sorted_wrt_mono_rel [rotated] split: if_splits)
next
  case orders_desc
  have "sorted_wrt (\<lambda>a b. num_or (ordersCount b - ordersCount a) (totalSpent b - totalSpent a) \<le> 0)
     (array_sort (\<lambda>a b. num_or (ordersCount b - ordersCount a) (totalSpent b - totalSpent a)) cs)"
    by (rule sorted_array_sort) (auto simp: num_or_def split: if_splits)
  then show ?thesis using orders_desc
    by (auto simp: num_or_def elim!: sorted_wrt_mono_rel [rotated] split: if_splits)
next
  case orders_asc
  have "sorted_wrt (\<lambda>a b. num_or (ordersCount a - ordersCount b) (totalSpent a - totalSpent b) \<le> 0)
     (array_sort (\<lambda>a b. num_or (ordersCount a - ordersCount b) (totalSpent a - totalSpent b)) cs)"
    by (rule sorted_array_sort) (auto simp: num_or_def split: if_splits)
  then show ?thesis using orders_asc
    by (auto simp: num_or_def elim!: sorted_wrt_mono_rel [rotated] split: if_splits)
qed

lemma mset_sortCustomers: "mset (sortCustomers cs k) = mset cs"
  by (cases k) (simp_all add: mset_array_sort)

text \<open>
  C5. For each of the four keys \<open>sortCustomers\<close> returns the same customers, every
  customer standing before every later one in the key's order: primary metric in the
  requested direction, ties broken by the other metric in the same direction. The three
  customers with (spent, orders) = (100, 2), (500, 1), (500, 5) sorted by \<open>ltv_desc\<close> come out
  as (500, 5), (500, 1), (100, 2).
\<close>

theorem sortCustomers_ordered:
  "sorted_wrt (in_order k) (sortCustomers cs k)
   \<and> mset (sortCustomers cs k) = mset cs
   \<and> sortCustomers [rc 100 2, rc 500 1, rc 500 5] ltv_desc = [rc 500 5, rc 500 1, rc 100 2]"
proof -
  have "sortCustomers [rc 100 2, rc 500 1, rc 500 5] ltv_desc = [rc 500 5, rc 500 1, rc 100 2]"
    by (simp add: rc_def num_or_def)
  then show ?thesis
    using sortCustomers_in_order [of k cs] mset_sortCustomers [of cs k] by blast
qed

subsection \<open>Histogram buckets\<close>

lemma findIndex_from_range:
  "findIndex_from p xs i = - 1
   \<or> (int i \<le> findIndex_from p xs i \<and> findIndex_from p xs i < int i + int (length xs))"
  by (induction xs arbitrary: i) (auto, force+)

lemma findIndex_range:
  "findIndex p xs = - 1 \<or> (0 \<le> findIndex p xs \<and> findIndex p xs < int (length xs))"
  using findIndex_from_range [of p xs 0] by (simp add: findIndex_def)

lemma sum_bump:
  "i < length bs \<Longrightarrow>
   sum_list (map bucket_count (bs[i := (bs ! i)\<lparr>bucket_count := bucket_count (bs ! i) + 1\<rparr>]))
   = sum_list (map bucket_count bs) + 1"
proof (induction bs arbitrary: i)
  case Nil
  then show ?case by simp
next
  case (Cons b bs)
  then show ?case by (cases i) auto
qed

lemma count_values_sum:
  "length buckets = length edges \<Longrightarrow> buckets \<noteq> [] \<Longrightarrow>
   \<exists>bs. count_values edges vs buckets = Inr bs \<and> length bs = length buckets
      \<and> sum_list (map bucket_count bs) = sum_list (map bucket_count buckets) + length vs"
proof (induction vs arbitrary: buckets)
  case Nil
  then show ?case by simp
next
  case (Cons v vs)
  define k where
    "k = (if findIndex (in_bucket edges v) edges = - 1 then int (length buckets) - 1
          else findIndex (in_bucket edges v) edges)"
  have range: "0 \<le> k \<and> k < int (length buckets)"
    using findIndex_range [of "in_bucket edges v" edges] Cons.prems
    by (auto simp: k_def)
  define buckets' where
    "buckets' = buckets[nat k :=
       (buckets ! nat k)\<lparr>bucket_count := bucket_count (buckets ! nat k) + 1\<rparr>]"
  have step: "count_values edges (v # vs) buckets = count_values edges vs buckets'"
    using range unfolding buckets'_def k_def by (simp add: Let_def)
  have len: "length buckets' = length edges" "buckets' \<noteq> []"
    using Cons.prems by (auto simp: buckets'_def)
  have sum: "sum_list (map bucket_count buckets') = sum_list (map bucket_count buckets) + 1"
    unfolding buckets'_def using range by (intro sum_bump) auto
  from Cons.IH [OF len] obtain bs where
    "count_values edges vs buckets' = Inr bs" "length bs = length buckets'"
    "sum_list (map bucket_count bs) = sum_list (map bucket_count buckets') + length vs"
    by blast
  with step sum show ?case by (simp add: buckets'_def)
qed

text \<open>
  C2, as amended. When the edge list is not empty, or the value list is empty,
  \<open>buildBuckets\<close> returns one bucket for each edge and the counts of the buckets add up to
  the number of values.
\<close>

theorem buildBuckets_counts:
  "edges \<noteq> [] \<or> values = [] \<Longrightarrow>
   \<exists>bs. buildBuckets values edges = Inr bs \<and> length bs = length edges
      \<and> sum_list (map bucket_count bs) = length values"
proof (cases "edges = []")
  case True
  assume "edges \<noteq> [] \<or> values = []"
  with True show ?thesis by (simp add: buildBuckets_def)
next
  case False
  let ?b = "map (\<lambda>ie. \<lparr>label = bucket_label edges ie, bucket_count = 0\<rparr>) (enumerate 0 edges)"
  have l: "length ?b = length edges" by simp
  then have "?b \<noteq> []" using False by (metis length_0_conv)
  from count_values_sum [OF l this, of "values"] obtain bs where
    bs: "count_values edges values ?b = Inr bs" "length bs = length ?b"
      "sum_list (map bucket_count bs) = sum_list (map bucket_count ?b) + length values"
    by blast
  have zero: "sum_list (map bucket_count ?b) = 0"
    by (simp add: comp_def)
  have "buildBuckets values edges = Inr bs"
    using bs(1) by (simp add: buildBuckets_def Let_def)
  moreover have "length bs = length edges" using bs(2) l by simp
  moreover have "sum_list (map bucket_count bs) = length values"
    using bs(3) zero by linarith
  ultimately show ?thesis by blast
qed

text \<open>The spend edges of the report, with four values; the last one is below every edge.\<close>

theorem buildBuckets_counts_witness:
  "buildBuckets [0, 75, 20000, - 1] [0, 50, 100] =
       Inr [\<lparr>label = Range 0 49, bucket_count = 1\<rparr>, \<lparr>label = Range 50 99, bucket_count = 1\<rparr>,
            \<lparr>label = OpenEnded 100, bucket_count = 2\<rparr>]
   \<and> sum_list (map bucket_count
        [\<lparr>label = Range 0 49, bucket_count = 1\<rparr>, \<lparr>label = Range 50 99, bucket_count = 1\<rparr>,
         \<lparr>label = OpenEnded 100, bucket_count = 2\<rparr>]) = length [0, 75, 20000, - 1 :: real]"
proof -
  have run: "buildBuckets [0, 75, 20000, - 1] [0, 50, 100] =
       Inr [\<lparr>label = Range 0 49, bucket_count = 1\<rparr>, \<lparr>label = Range 50 99, bucket_count = 1\<rparr>,
            \<lparr>label = OpenEnded 100, bucket_count = 2\<rparr>]"
    by (simp add: buildBuckets_def findIndex_def in_bucket_def bucket_label_def
        enumerate_eq_zip upt_rec)
  from buildBuckets_counts [of "[0, 50, 100]" "[0, 75, 20000, - 1]"]
  show ?thesis unfolding run by auto
qed

text \<open>
  C2 as stated fails on the empty edge list: with one value and no edges there is no
  bucket to count in, and the update of \<open>buckets[-1]\<close> throws.
\<close>

theorem buildBuckets_empty_edges_counterexample:
  "buildBuckets [1] [] = Inl TypeError"
  by (simp add: buildBuckets_def findIndex_def)

subsection \<open>CSV fields\<close>

lemma unquote_double: "spec_unquote (double_quotes s @ [dquote]) = Some s"
  by (induction s) (auto simp: double_quotes_def)

lemma needs_quoting_iff:
  "needs_quoting s \<longleftrightarrow> dquote \<in> set s \<or> CHR '','' \<in> set s \<or> newline \<in> set s"
  by (auto simp: needs_quoting_def list_ex_iff)

text \<open>
  C7. \<open>escapeCsv\<close> wraps a string in quotes, its own quotes doubled, exactly when the string
  holds a quote, a comma or a newline, and returns it unchanged otherwise; reading the
  produced field back gives the string.
\<close>

theorem escapeCsv_round_trip:
  "escapeCsv (Some s) =
     (if dquote \<in> set s \<or> CHR '','' \<in> set s \<or> newline \<in> set s
      then [dquote] @ double_quotes s @ [dquote] else s)
   \<and> spec_parseCsvField (escapeCsv (Some s)) = Some s"
proof -
  have "spec_parseCsvField (escapeCsv (Some s)) = Some s"
    by (cases s)
      (auto simp: spec_parseCsvField_def escapeCsv_def unquote_double needs_quoting_def)
  then show ?thesis
    by (simp add: escapeCsv_def needs_quoting_iff)
qed

text \<open>The name \<open>O'Brien, Jr. "VIP"\<close> becomes the one field \<open>"O'Brien, Jr. ""VIP"""\<close>.\<close>

theorem escapeCsv_round_trip_witness:
  "escapeCsv (Some obrien) =
     [dquote] @ ''O'' @ [CHR 0x27] @ ''Brien, Jr. '' @ [dquote, dquote] @ ''VIP''
       @ [dquote, dquote] @ [dquote]
   \<and> spec_parseCsvField (escapeCsv (Some obrien)) = Some obrien"
proof -
  have quoted: "[dquote] @ double_quotes obrien @ [dquote] =
     [dquote] @ ''O'' @ [CHR 0x27] @ ''Brien, Jr. '' @ [dquote, dquote] @ ''VIP''
       @ [dquote, dquote] @ [dquote]"
    by (simp add: obrien_def double_quotes_def)
  have special: "dquote \<in> set obrien"
    by (simp add: obrien_def)
  from escapeCsv_round_trip [of obrien] special quoted show ?thesis
    by (metis (full_types))
qed

subsection \<open>The tag filter\<close>

lemma tags_all_any:
  "requested \<noteq> [] \<Longrightarrow> tags_match mode_all requested c \<Longrightarrow> tags_match mode_any requested c"
  by (cases requested) (auto simp: tags_match_def Let_def)

lemma passes_all_any:
  "passes_filter lc nd (f\<lparr>tagsMode := mode_all\<rparr>) c
   \<Longrightarrow> passes_filter lc nd (f\<lparr>tagsMode := mode_any\<rparr>) c"
  unfolding passes_filter_def using tags_all_any [of "tagsList f" c]
  by (auto split: if_splits)

text \<open>
  C8. For every customer list and every filter, the customers that pass with
  \<open>tags_mode=all\<close> are among those that pass with \<open>tags_mode=any\<close>, the rest of the filter and
  the tag list being the same.
\<close>

theorem tags_all_subset_any:
  "set (filter (passes_filter lc nd (f\<lparr>tagsMode := mode_all\<rparr>)) cs)
   \<subseteq> set (filter (passes_filter lc nd (f\<lparr>tagsMode := mode_any\<rparr>)) cs)"
  using passes_all_any by auto

text \<open>Three customers and the tags \<open>vip\<close>, \<open>b2b\<close>: one passes on all, two on any.\<close>

theorem tags_all_subset_any_witness:
  "filter (passes_filter (\<lambda>s. s) (\<lambda>s. None)
            ((tags_only [''vip'', ''b2b''] mode_any)\<lparr>tagsMode := mode_all\<rparr>))
     [tagged ''1'' [''vip''], tagged ''2'' [''b2b'', ''vip''], tagged ''3'' []]
     = [tagged ''2'' [''b2b'', ''vip'']]
   \<and> filter (passes_filter (\<lambda>s. s) (\<lambda>s. None)
            ((tags_only [''vip'', ''b2b''] mode_any)\<lparr>tagsMode := mode_any\<rparr>))
     [tagged ''1'' [''vip''], tagged ''2'' [''b2b'', ''vip''], tagged ''3'' []]
     = [tagged ''1'' [''vip''], tagged ''2'' [''b2b'', ''vip'']]
   \<and> set [tagged ''2'' [''b2b'', ''vip'']]
       \<subseteq> set [tagged ''1'' [''vip''], tagged ''2'' [''b2b'', ''vip'']]"
proof -
  have a: "filter (passes_filter (\<lambda>s. s) (\<lambda>s. None)
            ((tags_only [''vip'', ''b2b''] mode_any)\<lparr>tagsMode := mode_all\<rparr>))
     [tagged ''1'' [''vip''], tagged ''2'' [''b2b'', ''vip''], tagged ''3'' []]
     = [tagged ''2'' [''b2b'', ''vip'']]"
    by (simp add: passes_filter_def tags_only_def tagged_def tags_match_def truthy_def
        below_def above_def date_excluded_def)
  have b: "filter (passes_filter (\<lambda>s. s) (\<lambda>s. None)
            ((tags_only [''vip'', ''b2b''] mode_any)\<lparr>tagsMode := mode_any\<rparr>))
     [tagged ''1'' [''vip''], tagged ''2'' [''b2b'', ''vip''], tagged ''3'' []]
     = [tagged ''1'' [''vip''], tagged ''2'' [''b2b'', ''vip'']]"
    by (simp add: passes_filter_def tags_only_def tagged_def tags_match_def truthy_def
        below_def above_def date_excluded_def)
  from tags_all_subset_any [of "\<lambda>s. s" "\<lambda>s. None" "tags_only [''vip'', ''b2b''] mode_any"
      "[tagged ''1'' [''vip''], tagged ''2'' [''b2b'', ''vip''], tagged ''3'' []]"]
  show ?thesis unfolding a b by simp
qed

subsection \<open>The date range\<close>

text \<open>
  Whenever the normalized start is later than the normalized end, the range returned
  starts where the range for no parameters starts, and ends 23:59:59 earlier: at the
  first instant of today, not the last second.
\<close>

lemma getDateRange_revert:
  assumes "utc_day_at (parseDateParam nd sp (utc_day_at today 0 0 0 - 29 * msPerDay)) 0 0 0
         > utc_day_at (parseDateParam nd ep (utc_day_at today 0 0 0)) 23 59 59"
  shows "range_start (getDateRange today nd sp ep) = range_start (getDateRange today nd None None)
    \<and> range_end (getDateRange today nd sp ep) = range_end (getDateRange today nd None None) - 86399000"
  using assms
  by (simp add: getDateRange_def parseDateParam_def utc_day_at_def msPerDay_def
      DEFAULT_RANGE_DAYS_def Let_def)

text \<open>
  C1. The claim is that a pair of valid dates with start after end gives exactly the pair
  that no parameters give. At 2024-03-15T12:34:56Z, \<open>start=2024-02-10\<close> and
  \<open>end=2024-02-01\<close> give the range from 2024-02-15T00:00:00Z to 2024-03-15T00:00:00Z, and no
  parameters give the range from 2024-02-15T00:00:00Z to 2024-03-15T23:59:59Z.
\<close>

theorem getDateRange_reverted_end:
  "getDateRange 1710506096000 two_days (Some ''2024-02-10'') (Some ''2024-02-01'')
     = \<lparr>range_start = 1707955200000, range_end = 1710460800000\<rparr>
   \<and> getDateRange 1710506096000 two_days None None
     = \<lparr>range_start = 1707955200000, range_end = 1710547199000\<rparr>"
  by (simp add: getDateRange_def parseDateParam_def two_days_def utc_day_at_def msPerDay_def
      DEFAULT_RANGE_DAYS_def truthy_def Let_def)

subsection \<open>The customer walks\<close>

lemma customersCount_foldl:
  "customersCount (foldl count_customer st ns) = customersCount st + length ns"
  by (induction ns arbitrary: st) (auto simp: count_customer_def Let_def)

lemma length_customers_foldl:
  "length (customers (foldl (push_customer lc) st ns)) = length (customers st) + length ns"
  by (induction ns arbitrary: st) (auto simp: push_customer_def Let_def)

lemma two_pages_run:
  "fetchAllCustomers (Suc (Suc 0)) two_pages =
     Some (Inr \<lparr>customersCount = 4, totalClv = 60,
        topCustomers =
          [\<lparr>row_id = ''b'', name = ''Unknown'', email = ''-'', totalSpent = 30, ordersCount = 1\<rparr>,
           \<lparr>row_id = ''c'', name = ''Unknown'', email = ''-'', totalSpent = 20, ordersCount = 1\<rparr>,
           \<lparr>row_id = ''a'', name = ''Unknown'', email = ''-'', totalSpent = 10, ordersCount = 1\<rparr>,
           \<lparr>row_id = ''d'', name = ''Unknown'', email = ''-'', totalSpent = 0, ordersCount = 1\<rparr>],
        totals_currencyCode = ''CAD'', truncated = False, averageClv = Some 15\<rparr>)"
  by (simp add: fetchAllCustomers_def two_pages_def customer_node_def count_customer_def
      insertTopCustomer_def node_amount_def node_ordersCount_def node_name_def node_currency_def
      or_else_def or_null_def truthy_def MAX_CUSTOMERS_def js_divide_def Let_def)

lemma no_customers_run:
  "fetchAllCustomers (Suc 0) no_customers =
     Some (Inr \<lparr>customersCount = 0, totalClv = 0, topCustomers = [],
        totals_currencyCode = ''USD'', truncated = False, averageClv = Some 0\<rparr>)"
  by (simp add: fetchAllCustomers_def no_customers_def MAX_CUSTOMERS_def)

lemma two_pages_report_run:
  "fetchAllCustomers_report (Suc (Suc 0)) two_pages (\<lambda>s. s) =
     Some (Inr \<lparr>customers =
        [\<lparr>row_id = ''a'', name = ''Unknown'', email = ''-'', totalSpent = 10, ordersCount = 1,
          createdAt = None, report_firstOrderDate = None, tags = []\<rparr>,
         \<lparr>row_id = ''b'', name = ''Unknown'', email = ''-'', totalSpent = 30, ordersCount = 1,
          createdAt = None, report_firstOrderDate = None, tags = []\<rparr>,
         \<lparr>row_id = ''c'', name = ''Unknown'', email = ''-'', totalSpent = 20, ordersCount = 1,
          createdAt = None, report_firstOrderDate = None, tags = []\<rparr>,
         \<lparr>row_id = ''d'', name = ''Unknown'', email = ''-'', totalSpent = 0, ordersCount = 1,
          createdAt = None, report_firstOrderDate = None, tags = []\<rparr>],
        report_currencyCode = ''CAD''\<rparr>)"
  by (simp add: fetchAllCustomers_report_def two_pages_def customer_node_def push_customer_def
      node_amount_def node_ordersCount_def node_name_def node_currency_def
      first_order_createdAt_def or_else_def or_null_def truthy_def Let_def)

text \<open>
  C10. Whenever the customer walk of the analytics route returns, \<open>averageClv\<close> is a finite
  number: \<open>totalClv\<close> divided by \<open>customersCount\<close> when that is positive, and \<open>0\<close> when it is
  \<open>0\<close>. The division with a zero divisor, whose result \<open>js_divide\<close> gives as \<open>None\<close>, does
  not occur.
\<close>

theorem averageClv_guarded:
  "fetchAllCustomers fuel admin = Some (Inr r) \<Longrightarrow>
   averageClv r = Some (if customersCount r = 0 then 0 else totalClv r / real (customersCount r))"
  by (auto simp: fetchAllCustomers_def js_divide_def split: option.splits sum.splits)

text \<open>Four customers who spent 60 in all, and an upstream with no customers.\<close>

theorem averageClv_guarded_witness:
  "(\<exists>r. fetchAllCustomers (Suc (Suc 0)) two_pages = Some (Inr r)
        \<and> customersCount r = 4 \<and> totalClv r = 60 \<and> averageClv r = Some 15)
   \<and> (\<exists>r. fetchAllCustomers (Suc 0) no_customers = Some (Inr r)
        \<and> customersCount r = 0 \<and> averageClv r = Some 0)"
proof -
  from averageClv_guarded [OF two_pages_run]
  have "\<exists>r. fetchAllCustomers (Suc (Suc 0)) two_pages = Some (Inr r)
        \<and> customersCount r = 4 \<and> totalClv r = 60 \<and> averageClv r = Some 15"
    unfolding two_pages_run by simp
  moreover from averageClv_guarded [OF no_customers_run]
  have "\<exists>r. fetchAllCustomers (Suc 0) no_customers = Some (Inr r)
        \<and> customersCount r = 0 \<and> averageClv r = Some 0"
    unfolding no_customers_run by simp
  ultimately show ?thesis by blast
qed

lemma customers_loop_error:
  "fetchCustomersLoop n admin h a st = Some (Inl e) \<longleftrightarrow>
   (\<exists>json \<in> set (responses_received n admin (\<lambda>k. k < MAX_CUSTOMERS) h a (customersCount st)).
      \<exists>es. errors json = Some es \<and> e = GraphQLError es)"
proof (induction n arbitrary: h a st)
  case 0
  then show ?case by simp
next
  case (Suc n)
  show ?case
  proof (cases "h \<and> customersCount st < MAX_CUSTOMERS")
    case False
    then show ?thesis by auto
  next
    case True
    show ?thesis
    proof (cases "errors (admin a)")
      case None
      with True show ?thesis
        by (simp add: Let_def Suc.IH customersCount_foldl)
    next
      case (Some es)
      with True show ?thesis by (auto simp: Let_def)
    qed
  qed
qed

lemma report_loop_error:
  "fetchReportLoop n admin lc h a st = Some (Inl e) \<longleftrightarrow>
   (\<exists>json \<in> set (responses_received n admin (\<lambda>k. True) h a k0).
      \<exists>es. errors json = Some es \<and> e = GraphQLError es)"
proof (induction n arbitrary: h a st k0)
  case 0
  then show ?case by simp
next
  case (Suc n)
  show ?case
  proof (cases h)
    case False
    then show ?thesis by auto
  next
    case True
    show ?thesis
    proof (cases "errors (admin a)")
      case None
      with True show ?thesis
        by (simp add: Let_def Suc.IH)
    next
      case (Some es)
      with True show ?thesis by (auto simp: Let_def)
    qed
  qed
qed

text \<open>
  C3, as amended. Each of the two customer walks ends in the failure \<open>GraphQLError es\<close>
  exactly when one of the responses it receives has an \<open>errors\<close> member, \<open>es\<close> being that
  member; the array may be empty. The failure is the whole result: no totals and no
  customers are returned with it. A walk whose responses have no \<open>errors\<close> member does not
  fail.
\<close>

theorem upstream_errors_abort:
  "(fetchAllCustomers fuel admin = Some (Inl e) \<longleftrightarrow>
      (\<exists>json \<in> set (analytics_responses fuel admin).
         \<exists>es. errors json = Some es \<and> e = GraphQLError es))
   \<and> (fetchAllCustomers_report fuel admin lc = Some (Inl e) \<longleftrightarrow>
      (\<exists>json \<in> set (report_responses fuel admin).
         \<exists>es. errors json = Some es \<and> e = GraphQLError es))"
proof -
  have "fetchAllCustomers fuel admin = Some (Inl e) \<longleftrightarrow>
     fetchCustomersLoop fuel admin True None
             \<lparr>customersCount = 0, totalClv = 0, topCustomers = [],
              totals_currencyCode = ''USD'', truncated = False\<rparr> = Some (Inl e)"
    by (auto simp: fetchAllCustomers_def split: option.splits sum.splits)
  then show ?thesis
    by (simp add: customers_loop_error analytics_responses_def report_responses_def
        fetchAllCustomers_report_def report_loop_error [where ?k0.0 = 0])
qed

lemma failing_responses:
  "analytics_responses (Suc (Suc 0)) failing_second_page =
     [failing_second_page None, failing_second_page (Some ''p2'')]"
  by (simp add: analytics_responses_def failing_second_page_def MAX_CUSTOMERS_def)

text \<open>A first page without errors and a second page with one error.\<close>

theorem upstream_errors_abort_witness:
  "fetchAllCustomers (Suc (Suc 0)) failing_second_page = Some (Inl (GraphQLError [''Throttled'']))
   \<and> errors (failing_second_page (Some ''p2'')) = Some [''Throttled'']"
proof -
  have "errors (failing_second_page (Some ''p2'')) = Some [''Throttled'']"
    by (simp add: failing_second_page_def)
  with upstream_errors_abort [of "Suc (Suc 0)" failing_second_page "GraphQLError [''Throttled'']"]
    failing_responses
  show ?thesis by simp
qed

text \<open>
  C3 as stated fails on a response whose \<open>errors\<close> member is the empty array: the array is
  truthy, so both walks throw, though the response holds no non-empty error array.
\<close>

theorem empty_errors_counterexample:
  "errors (empty_errors_page None) = Some []
   \<and> fetchAllCustomers (Suc 0) empty_errors_page = Some (Inl (GraphQLError []))
   \<and> fetchAllCustomers_report (Suc 0) empty_errors_page (\<lambda>s. s) = Some (Inl (GraphQLError []))"
  by (simp add: fetchAllCustomers_def fetchAllCustomers_report_def empty_errors_page_def
      MAX_CUSTOMERS_def)

lemma foldl_keep_currency:
  "foldl keep_currency init ns =
     (case List.map_filter node_currency ns of [] \<Rightarrow> init | codes \<Rightarrow> last codes)"
  by (induction ns arbitrary: init)
    (auto simp: keep_currency_def List.map_filter_simps split: option.splits list.splits)

lemma currency_count_customers:
  "totals_currencyCode (foldl count_customer st ns) = foldl keep_currency (totals_currencyCode st) ns"
  by (induction ns arbitrary: st) (auto simp: count_customer_def keep_currency_def Let_def)

lemma currency_push_customers:
  "report_currencyCode (foldl (push_customer lc) st ns) = foldl keep_currency (report_currencyCode st) ns"
  by (induction ns arbitrary: st) (auto simp: push_customer_def keep_currency_def Let_def)

lemma customers_loop_currency:
  "fetchCustomersLoop n admin h a st = Some (Inr st') \<Longrightarrow>
   totals_currencyCode st' =
     foldl keep_currency (totals_currencyCode st)
       (concat (map nodes
          (responses_received n admin (\<lambda>k. k < MAX_CUSTOMERS) h a (customersCount st))))"
proof (induction n arbitrary: h a st)
  case 0
  then show ?case by (auto split: if_splits)
next
  case (Suc n)
  show ?case
  proof (cases "h \<and> customersCount st < MAX_CUSTOMERS")
    case False
    with Suc.prems show ?thesis by auto
  next
    case True
    show ?thesis
    proof (cases "errors (admin a)")
      case None
      let ?st' = "foldl count_customer st (nodes (admin a))"
      let ?st'' = "if MAX_CUSTOMERS \<le> customersCount ?st' \<and> page_hasNextPage (pageInfo (admin a))
                   then ?st'\<lparr>truncated := True\<rparr> else ?st'"
      from Suc.prems True None have run:
        "fetchCustomersLoop n admin (page_hasNextPage (pageInfo (admin a)))
           (endCursor (pageInfo (admin a))) ?st'' = Some (Inr st')"
        by (simp add: Let_def)
      have cnt: "customersCount ?st'' = customersCount st + length (nodes (admin a))"
        by (simp add: customersCount_foldl)
      have cur: "totals_currencyCode ?st'' = foldl keep_currency (totals_currencyCode st) (nodes (admin a))"
        by (simp add: currency_count_customers)
      from Suc.IH [OF run] show ?thesis
        using True None unfolding cnt cur by simp
    next
      case (Some es)
      with True Suc.prems show ?thesis by (simp add: Let_def)
    qed
  qed
qed

lemma report_loop_currency:
  "fetchReportLoop n admin lc h a st = Some (Inr st') \<Longrightarrow>
   report_currencyCode st' =
     foldl keep_currency (report_currencyCode st)
       (concat (map nodes (responses_received n admin (\<lambda>k. True) h a k0)))"
proof (induction n arbitrary: h a st k0)
  case 0
  then show ?case by (auto split: if_splits)
next
  case (Suc n)
  show ?case
  proof (cases h)
    case False
    with Suc.prems show ?thesis by auto
  next
    case True
    show ?thesis
    proof (cases "errors (admin a)")
      case None
      let ?st' = "foldl (push_customer lc) st (nodes (admin a))"
      from Suc.prems True None have run:
        "fetchReportLoop n admin lc (page_hasNextPage (pageInfo (admin a)))
           (endCursor (pageInfo (admin a))) ?st' = Some (Inr st')"
        by (simp add: Let_def)
      from Suc.IH [OF run, of "k0 + length (nodes (admin a))"] show ?thesis
        using True None by (simp add: currency_push_customers)
    next
      case (Some es)
      with True Suc.prems show ?thesis by (simp add: Let_def)
    qed
  qed
qed

text \<open>
  C9. When a customer walk returns, of the analytics route or of the report route, the
  currency code it reports is the code of the last customer, in the order the pages were
  received, that carries a non-empty code, and \<open>USD\<close> when no customer received carries
  one.
\<close>

theorem currencyCode_last_seen:
  "(fetchAllCustomers fuel admin = Some (Inr r) \<longrightarrow>
      totals_currencyCode r = spec_currencyCode (concat (map nodes (analytics_responses fuel admin))))
   \<and> (fetchAllCustomers_report fuel admin lc = Some (Inr rr) \<longrightarrow>
      report_currencyCode rr = spec_currencyCode (concat (map nodes (report_responses fuel admin))))"
proof (intro conjI impI)
  assume "fetchAllCustomers fuel admin = Some (Inr r)"
  then obtain st where
    loop: "fetchCustomersLoop fuel admin True None
             \<lparr>customersCount = 0, totalClv = 0, topCustomers = [],
              totals_currencyCode = ''USD'', truncated = False\<rparr> = Some (Inr st)"
    and r: "totals_currencyCode r = totals_currencyCode st"
    by (auto simp: fetchAllCustomers_def split: option.splits sum.splits)
  from customers_loop_currency [OF loop] r
  show "totals_currencyCode r = spec_currencyCode (concat (map nodes (analytics_responses fuel admin)))"
    by (simp add: foldl_keep_currency spec_currencyCode_def analytics_responses_def)
next
  assume "fetchAllCustomers_report fuel admin lc = Some (Inr rr)"
  then have "fetchReportLoop fuel admin lc True None \<lparr>customers = [], report_currencyCode = ''USD''\<rparr> = Some (Inr rr)"
    by (simp add: fetchAllCustomers_report_def)
  from report_loop_currency [OF this, of 0]
  show "report_currencyCode rr = spec_currencyCode (concat (map nodes (report_responses fuel admin)))"
    by (simp add: foldl_keep_currency spec_currencyCode_def report_responses_def)
qed


text \<open>
  Two pages whose customers carry the codes \<open>EUR\<close>, none, \<open>CAD\<close>, none; and an upstream
  with no customers.
\<close>

lemma two_pages_received:
  "concat (map nodes (analytics_responses (Suc (Suc 0)) two_pages)) =
     [customer_node ''a'' 10 ''EUR'', customer_node ''b'' 30 [],
      customer_node ''c'' 20 ''CAD'', customer_node ''d'' 0 []]"
  by (simp add: analytics_responses_def two_pages_def MAX_CUSTOMERS_def)

theorem currencyCode_last_seen_witness:
  "(\<exists>r. fetchAllCustomers (Suc (Suc 0)) two_pages = Some (Inr r)
        \<and> totals_currencyCode r = ''CAD''
        \<and> totals_currencyCode r =
            spec_currencyCode [customer_node ''a'' 10 ''EUR'', customer_node ''b'' 30 [],
              customer_node ''c'' 20 ''CAD'', customer_node ''d'' 0 []])
   \<and> (\<exists>rr. fetchAllCustomers_report (Suc (Suc 0)) two_pages (\<lambda>s. s) = Some (Inr rr)
        \<and> report_currencyCode rr = ''CAD'')
   \<and> (\<exists>r. fetchAllCustomers (Suc 0) no_customers = Some (Inr r)
        \<and> totals_currencyCode r = ''USD'')"
proof -
  from currencyCode_last_seen [THEN conjunct1, rule_format, OF two_pages_run]
  have "\<exists>r. fetchAllCustomers (Suc (Suc 0)) two_pages = Some (Inr r)
        \<and> totals_currencyCode r = ''CAD''
        \<and> totals_currencyCode r =
            spec_currencyCode [customer_node ''a'' 10 ''EUR'', customer_node ''b'' 30 [],
              customer_node ''c'' 20 ''CAD'', customer_node ''d'' 0 []]"
    unfolding two_pages_received two_pages_run by simp
  moreover from two_pages_report_run
  have "\<exists>rr. fetchAllCustomers_report (Suc (Suc 0)) two_pages (\<lambda>s. s) = Some (Inr rr)
        \<and> report_currencyCode rr = ''CAD''"
    by simp
  moreover from no_customers_run
  have "\<exists>r. fetchAllCustomers (Suc 0) no_customers = Some (Inr r)
        \<and> totals_currencyCode r = ''USD''"
    by simp
  ultimately show ?thesis by blast
qed

subsection \<open>Fuel\<close>

text \<open>
  A walk that returns with some fuel returns the same with more, so \<open>Some\<close> is the result
  of the loop of the source and not of the fuel. When every page brings at least one
  customer, the cap bounds the number of requests and the analytics walk returns.
\<close>

lemma customers_loop_done:
  "\<not> (h \<and> customersCount st < MAX_CUSTOMERS) \<Longrightarrow> fetchCustomersLoop n admin h a st = Some (Inr st)"
  by (cases n) auto

lemma customers_loop_more_fuel:
  "fetchCustomersLoop n admin h a st = Some r \<Longrightarrow> fetchCustomersLoop (n + k) admin h a st = Some r"
proof (induction n arbitrary: h a st)
  case 0
  then show ?case by (auto simp: customers_loop_done split: if_splits)
next
  case (Suc n)
  then show ?case by (auto simp: Let_def split: if_splits option.splits)
qed

lemma customers_loop_returns:
  "MAX_CUSTOMERS \<le> customersCount st + n \<Longrightarrow> \<forall>c. nodes (admin c) \<noteq> [] \<Longrightarrow>
   \<exists>r. fetchCustomersLoop n admin h a st = Some r"
proof (induction n arbitrary: h a st)
  case 0
  then show ?case by simp
next
  case (Suc n)
  show ?case
  proof (cases "h \<and> customersCount st < MAX_CUSTOMERS")
    case False
    then show ?thesis using customers_loop_done [of h st "Suc n" admin a] by blast
  next
    case True
    show ?thesis
    proof (cases "errors (admin a)")
      case (Some es)
      with True show ?thesis by (simp add: Let_def)
    next
      case None
      let ?st' = "foldl count_customer st (nodes (admin a))"
      let ?st'' = "if MAX_CUSTOMERS \<le> customersCount ?st' \<and> page_hasNextPage (pageInfo (admin a))
                   then ?st'\<lparr>truncated := True\<rparr> else ?st'"
      have "length (nodes (admin a)) \<ge> 1"
        using Suc.prems(2) by (cases "nodes (admin a)") auto
      then have "MAX_CUSTOMERS \<le> customersCount ?st'' + n"
        using Suc.prems(1) by (simp add: customersCount_foldl)
      from Suc.IH [OF this Suc.prems(2)] True None show ?thesis
        by (simp add: Let_def)
    qed
  qed
qed

lemma report_loop_more_fuel:
  "fetchReportLoop n admin lc h a st = Some r \<Longrightarrow> fetchReportLoop (n + k) admin lc h a st = Some r"
proof (induction n arbitrary: h a st)
  case 0
  then show ?case by (cases k) (auto split: if_splits)
next
  case (Suc n)
  then show ?case by (auto simp: Let_def split: if_splits option.splits)
qed

lemma fetchAllCustomers_returns:
  "\<forall>c. nodes (admin c) \<noteq> [] \<Longrightarrow> \<exists>r. fetchAllCustomers MAX_CUSTOMERS admin = Some r"
proof -
  assume ne: "\<forall>c. nodes (admin c) \<noteq> []"
  let ?init = "\<lparr>customersCount = 0, totalClv = 0, topCustomers = [],
              totals_currencyCode = ''USD'', truncated = False\<rparr>"
  have "MAX_CUSTOMERS \<le> customersCount ?init + MAX_CUSTOMERS" by simp
  from customers_loop_returns [OF this ne, where h = True and a = None]
  show ?thesis by (auto simp: fetchAllCustomers_def split: sum.splits)
qed


subsection \<open>The order scan\<close>

lemma scan_order_truncated:
  "scan_order nd s e (st\<lparr>orders_truncated := b\<rparr>) ord = (scan_order nd s e st ord)\<lparr>orders_truncated := b\<rparr>"
  by (simp add: scan_order_def Let_def split: option.splits prod.splits)

lemma scan_orders_truncated:
  "foldl (scan_order nd s e) (st\<lparr>orders_truncated := b\<rparr>) os
     = (foldl (scan_order nd s e) st os)\<lparr>orders_truncated := b\<rparr>"
  by (induction os arbitrary: st) (simp_all add: scan_order_truncated)

lemma scan_order_scanned: "scanned (scan_order nd s e st ord) = scanned st + 1"
  by (simp add: scan_order_def Let_def split: option.splits prod.splits)

lemma scan_orders_scanned: "scanned (foldl (scan_order nd s e) st os) = scanned st + length os"
  by (induction os arbitrary: st) (simp_all add: scan_order_scanned)

lemma scan_order_flag: "usedFallback st \<Longrightarrow> usedFallback (scan_order nd s e st ord)"
  by (simp add: scan_order_def Let_def split: option.splits prod.splits)

lemma scan_orders_flag: "usedFallback st \<Longrightarrow> usedFallback (foldl (scan_order nd s e) st os)"
  by (induction os arbitrary: st) (simp_all add: scan_order_flag)

lemma scan_order_map:
  "newCustomersMap (scan_order nd s e st ord) = newCustomersMap st
   \<or> (\<exists>c v. order_customer ord = Some c \<and> node_id c \<notin> keys st \<and> row_id v = node_id c
        \<and> newCustomersMap (scan_order nd s e st ord) = newCustomersMap st @ [(node_id c, v)])"
  by (auto simp: scan_order_def Let_def split: option.splits prod.splits if_splits)

lemma scan_order_ok: "map_ok (newCustomersMap st) \<Longrightarrow> map_ok (newCustomersMap (scan_order nd s e st ord))"
  using scan_order_map [of nd s e st ord] by (auto simp: map_ok_def)

lemma scan_orders_ok:
  "map_ok (newCustomersMap st) \<Longrightarrow> map_ok (newCustomersMap (foldl (scan_order nd s e) st os))"
  by (induction os arbitrary: st) (simp_all add: scan_order_ok)

lemma scan_order_keeps: "set (newCustomersMap st) \<subseteq> set (newCustomersMap (scan_order nd s e st ord))"
  using scan_order_map [of nd s e st ord] by auto

lemma scan_orders_keep:
  "set (newCustomersMap st) \<subseteq> set (newCustomersMap (foldl (scan_order nd s e) st os))"
proof (induction os arbitrary: st)
  case Nil
  then show ?case by simp
next
  case (Cons ord os)
  from scan_order_keeps [of st nd s e ord] Cons.IH [of "scan_order nd s e st ord"]
  show ?case by auto
qed

lemma customer_ids_Cons:
  "set (customer_ids (ord # os)) =
     (case order_customer ord of None \<Rightarrow> {} | Some c \<Rightarrow> {node_id c}) \<union> set (customer_ids os)"
  by (simp add: customer_ids_def split: option.splits)

lemma scan_order_keys:
  "keys (scan_order nd s e st ord)
     \<subseteq> keys st \<union> (case order_customer ord of None \<Rightarrow> {} | Some c \<Rightarrow> {node_id c})"
  using scan_order_map [of nd s e st ord] by force

lemma scan_orders_keys:
  "keys (foldl (scan_order nd s e) st os) \<subseteq> keys st \<union> set (customer_ids os)"
proof (induction os arbitrary: st)
  case Nil
  then show ?case by simp
next
  case (Cons ord os)
  have "keys (foldl (scan_order nd s e) st (ord # os))
      \<subseteq> keys (scan_order nd s e st ord) \<union> set (customer_ids os)"
    using Cons.IH [of "scan_order nd s e st ord"] by simp
  also have "\<dots> \<subseteq> keys st \<union> set (customer_ids (ord # os))"
    unfolding customer_ids_Cons using scan_order_keys [of nd s e st ord] by blast
  finally show ?case .
qed

lemma scan_order_fallback_step:
  assumes "order_customer ord = Some c" "truthy (node_id c)" "first_order_createdAt c = None"
    "numberOfOrders c = Some 1"
  shows "scan_order nd s e st ord =
     (if node_id c \<in> keys st
      then st\<lparr>scanned := scanned st + 1, usedFallback := True\<rparr>
      else st\<lparr>scanned := scanned st + 1, usedFallback := True,
              newCustomersMap := newCustomersMap st @ [(node_id c, fallback_entry ord c)]\<rparr>)"
  using assms
  by (simp add: scan_order_def Let_def node_ordersCount_def fallback_entry_def)

lemma scan_order_fallback:
  assumes "order_customer ord = Some c" "truthy (node_id c)" "first_order_createdAt c = None"
    "numberOfOrders c = Some 1"
  shows "usedFallback (scan_order nd s e st ord)"
    and "node_id c \<in> keys (scan_order nd s e st ord)"
    and "node_id c \<notin> keys st \<Longrightarrow>
         (node_id c, fallback_entry ord c) \<in> set (newCustomersMap (scan_order nd s e st ord))"
  unfolding scan_order_fallback_step [OF assms]
  by (simp_all add: image_iff)

lemma orders_loop_fold:
  "fetchOrdersLoop n admin nd s e h a st = Some (Inr st') \<Longrightarrow>
   newCustomersMap st' =
     newCustomersMap (foldl (scan_order nd s e) st
       (concat (map nodes (responses_received n admin (\<lambda>k. k < MAX_ORDERS) h a (scanned st)))))
   \<and> usedFallback st' =
     usedFallback (foldl (scan_order nd s e) st
       (concat (map nodes (responses_received n admin (\<lambda>k. k < MAX_ORDERS) h a (scanned st)))))"
proof (induction n arbitrary: h a st)
  case 0
  then show ?case by (auto split: if_splits)
next
  case (Suc n)
  show ?case
  proof (cases "h \<and> scanned st < MAX_ORDERS")
    case False
    with Suc.prems show ?thesis by auto
  next
    case True
    show ?thesis
    proof (cases "errors (admin a)")
      case (Some es)
      with True Suc.prems show ?thesis by (simp add: Let_def)
    next
      case None
      let ?ns = "nodes (admin a)"
      let ?st1 = "foldl (scan_order nd s e) st ?ns"
      define b where
        "b = (if MAX_ORDERS \<le> scanned ?st1 \<and> page_hasNextPage (pageInfo (admin a)) then True
              else orders_truncated ?st1)"
      have st2: "(if MAX_ORDERS \<le> scanned ?st1 \<and> page_hasNextPage (pageInfo (admin a))
                  then ?st1\<lparr>orders_truncated := True\<rparr> else ?st1) = ?st1\<lparr>orders_truncated := b\<rparr>"
        by (simp add: b_def)
      from Suc.prems True None have run:
        "fetchOrdersLoop n admin nd s e (page_hasNextPage (pageInfo (admin a)))
           (endCursor (pageInfo (admin a))) (?st1\<lparr>orders_truncated := b\<rparr>) = Some (Inr st')"
        unfolding st2 [symmetric] by (simp add: Let_def)
      have cnt: "scanned (?st1\<lparr>orders_truncated := b\<rparr>) = scanned st + length ?ns"
        by (simp add: scan_orders_scanned)
      from Suc.IH [OF run] show ?thesis
        using True None unfolding cnt by (simp add: scan_orders_truncated)
    qed
  qed
qed

text \<open>
  C4, as amended. Let the scan return, and take any order it scanned whose customer has a
  non-empty id, no resolvable first-order timestamp and a lifetime order count of exactly
  1. Then \<open>usedFallback\<close> is set and the customer is in the list of new customers. If no
  earlier order of the scan has a customer with the same id, the customer's
  \<open>firstOrderDate\<close> is the creation timestamp of this order; otherwise the row filed
  first is kept.
\<close>

theorem fallback_customer_is_new:
  assumes run: "fetchOrdersInRange fuel admin nd cmp s e = Some (Inr res)"
    and scanned: "concat (map nodes (orders_responses fuel admin)) = earlier @ ord # later"
    and cust: "order_customer ord = Some c" "truthy (node_id c)"
    and fb: "first_order_createdAt c = None" "numberOfOrders c = Some 1"
  shows "usedFallback res
    \<and> node_id c \<in> row_id ` set (newCustomers res)
    \<and> (node_id c \<notin> set (customer_ids earlier) \<longrightarrow>
        (\<forall>nc \<in> set (newCustomers res).
           row_id nc = node_id c \<longrightarrow> firstOrderDate nc = order_createdAt ord))"
proof -
  let ?init = "\<lparr>orders_truncated = False, usedFallback = False, scanned = 0,
                newCustomersMap = []\<rparr>"
  let ?scan = "scan_order nd s e"
  from run obtain st' where
    loop: "fetchOrdersLoop fuel admin nd s e True None ?init = Some (Inr st')"
    and flag: "usedFallback res = usedFallback st'"
    and rows: "newCustomers res =
      array_sort (\<lambda>a b. cmp (firstOrderDate a) (firstOrderDate b)) (map snd (newCustomersMap st'))"
    by (auto simp: fetchOrdersInRange_def split: option.splits sum.splits)
  define P where "P = foldl ?scan ?init earlier"
  define Q where "Q = ?scan P ord"
  define F where "F = foldl ?scan Q later"
  from orders_loop_fold [OF loop] scanned
  have fin: "newCustomersMap st' = newCustomersMap F" "usedFallback st' = usedFallback F"
    by (simp_all add: orders_responses_def P_def Q_def F_def)
  have rows_set: "set (newCustomers res) = snd ` set (newCustomersMap F)"
    by (simp add: rows set_array_sort fin)
  have okF: "map_ok (newCustomersMap F)"
    unfolding F_def Q_def P_def
    by (intro scan_orders_ok scan_order_ok) (simp add: map_ok_def)
  have keep: "set (newCustomersMap Q) \<subseteq> set (newCustomersMap F)"
    unfolding F_def by (rule scan_orders_keep)
  have "usedFallback Q"
    unfolding Q_def by (rule scan_order_fallback(1) [OF cust fb])
  then have c1: "usedFallback res"
    unfolding flag fin F_def by (rule scan_orders_flag)
  have "node_id c \<in> keys Q"
    unfolding Q_def by (rule scan_order_fallback(2) [OF cust fb])
  then obtain v where v: "(node_id c, v) \<in> set (newCustomersMap F)"
    using keep by auto
  with okF have "row_id v = node_id c" by (auto simp: map_ok_def)
  with v have c2: "node_id c \<in> row_id ` set (newCustomers res)"
    unfolding rows_set by force
  have c3: "firstOrderDate nc = order_createdAt ord"
    if first: "node_id c \<notin> set (customer_ids earlier)"
      and nc: "nc \<in> set (newCustomers res)" "row_id nc = node_id c" for nc
  proof -
    have "keys P \<subseteq> set (customer_ids earlier)"
      using scan_orders_keys [of nd s e ?init earlier] by (simp add: P_def)
    with first have "node_id c \<notin> keys P" by blast
    then have "(node_id c, fallback_entry ord c) \<in> set (newCustomersMap Q)"
      unfolding Q_def by (rule scan_order_fallback(3) [OF cust fb])
    with keep have entry: "(node_id c, fallback_entry ord c) \<in> set (newCustomersMap F)"
      by blast
    from nc(1) obtain k where k: "(k, nc) \<in> set (newCustomersMap F)"
      unfolding rows_set by auto
    with okF nc(2) have "k = node_id c" by (auto simp: map_ok_def)
    with k entry okF have "nc = fallback_entry ord c"
      by (auto simp: map_ok_def dest: eq_key_imp_eq_value)
    then show ?thesis by (simp add: fallback_entry_def)
  qed
  from c1 c2 c3 show ?thesis by blast
qed

lemma repeat_run:
  "fetchOrdersInRange (Suc 0) repeat_customer_orders two_days string_compare
       1704067200000 1706745599000 =
     Some (Inr \<lparr>orders_truncated = False, usedFallback = True,
        newCustomers =
          [\<lparr>row_id = ''x'', name = ''Unknown'', email = ''-'', totalSpent = 0, ordersCount = 1,
            firstOrderDate = ''2024-01-05T10:00:00Z''\<rparr>]\<rparr>)"
  by (simp add: fetchOrdersInRange_def repeat_customer_orders_def order_of_def scan_order_def
      MAX_ORDERS_def node_amount_def node_ordersCount_def node_name_def or_else_def
      first_order_createdAt_def truthy_def Let_def)


lemma repeat_scanned:
  "concat (map nodes (orders_responses (Suc 0) repeat_customer_orders)) =
     [] @ order_of ''2024-01-05T10:00:00Z'' ''x'' (Some 1) None
        # [order_of ''2024-01-06T09:00:00Z'' ''x'' (Some 1) None]"
  by (simp add: orders_responses_def repeat_customer_orders_def MAX_ORDERS_def)

text \<open>
  A customer with one lifetime order and no first-order timestamp on two orders of the
  window, of 5 and of 6 January: the theorem at the first of the two.
\<close>

theorem fallback_customer_is_new_witness:
  "\<exists>res. fetchOrdersInRange (Suc 0) repeat_customer_orders two_days string_compare
            1704067200000 1706745599000 = Some (Inr res)
     \<and> usedFallback res
     \<and> ''x'' \<in> row_id ` set (newCustomers res)
     \<and> map firstOrderDate (newCustomers res) = [''2024-01-05T10:00:00Z'']"
proof -
  let ?o1 = "order_of ''2024-01-05T10:00:00Z'' ''x'' (Some 1) None"
  have c: "order_customer ?o1 = Some (the (order_customer ?o1))"
    by (simp add: order_of_def)
  have facts: "truthy (node_id (the (order_customer ?o1)))"
    "first_order_createdAt (the (order_customer ?o1)) = None"
    "numberOfOrders (the (order_customer ?o1)) = Some 1"
    "node_id (the (order_customer ?o1)) = ''x''"
    by (simp_all add: order_of_def truthy_def first_order_createdAt_def)
  from fallback_customer_is_new [OF repeat_run repeat_scanned c facts(1-3)]
  show ?thesis unfolding repeat_run facts(4) by simp
qed

text \<open>
  C4 as stated fails at the second of the two orders: its customer has one lifetime
  order and no first-order timestamp, the order was created on 6 January, and the
  customer's \<open>firstOrderDate\<close> is 5 January, the creation time of the first order.
\<close>

theorem repeat_customer_counterexample:
  "fetchOrdersInRange (Suc 0) repeat_customer_orders two_days string_compare
       1704067200000 1706745599000 =
     Some (Inr \<lparr>orders_truncated = False, usedFallback = True,
        newCustomers =
          [\<lparr>row_id = ''x'', name = ''Unknown'', email = ''-'', totalSpent = 0, ordersCount = 1,
            firstOrderDate = ''2024-01-05T10:00:00Z''\<rparr>]\<rparr>)
   \<and> nodes (repeat_customer_orders None) ! 1 =
       order_of ''2024-01-06T09:00:00Z'' ''x'' (Some 1) None"
  using repeat_run by (simp add: repeat_customer_orders_def)

text \<open>The same for the order scan.\<close>

lemma orders_loop_done:
  "\<not> (h \<and> scanned st < MAX_ORDERS) \<Longrightarrow> fetchOrdersLoop n admin nd s e h a st = Some (Inr st)"
  by (cases n) auto

lemma orders_loop_more_fuel:
  "fetchOrdersLoop n admin nd s e h a st = Some r
   \<Longrightarrow> fetchOrdersLoop (n + k) admin nd s e h a st = Some r"
proof (induction n arbitrary: h a st)
  case 0
  then show ?case by (auto simp: orders_loop_done split: if_splits)
next
  case (Suc n)
  then show ?case by (auto simp: Let_def split: if_splits option.splits)
qed

lemma orders_loop_returns:
  "MAX_ORDERS \<le> scanned st + n \<Longrightarrow> \<forall>c. nodes (admin c) \<noteq> [] \<Longrightarrow>
   \<exists>r. fetchOrdersLoop n admin nd s e h a st = Some r"
proof (induction n arbitrary: h a st)
  case 0
  then show ?case by simp
next
  case (Suc n)
  show ?case
  proof (cases "h \<and> scanned st < MAX_ORDERS")
    case False
    then show ?thesis using orders_loop_done [of h st "Suc n" admin nd s e a] by blast
  next
    case True
    show ?thesis
    proof (cases "errors (admin a)")
      case (Some es)
      with True show ?thesis by (simp add: Let_def)
    next
      case None
      let ?st' = "foldl (scan_order nd s e) st (nodes (admin a))"
      let ?st'' = "if MAX_ORDERS \<le> scanned ?st' \<and> page_hasNextPage (pageInfo (admin a))
                   then ?st'\<lparr>orders_truncated := True\<rparr> else ?st'"
      have "length (nodes (admin a)) \<ge> 1"
        using Suc.prems(2) by (cases "nodes (admin a)") auto
      then have "MAX_ORDERS \<le> scanned ?st'' + n"
        using Suc.prems(1) by (simp add: scan_orders_scanned)
      from Suc.IH [OF this Suc.prems(2)] True None show ?thesis
        by (simp add: Let_def)
    qed
  qed
qed

end
